theory Spec2Isabelle
  imports Complex_Main
begin

section \<open>Quantum harmonic oscillator notebook: Hermite family and wavefunctions\<close>

text \<open>
  The notebook \<^verbatim>\<open>qho-plot.ipynb\<close> builds the physicists' Hermite polynomials with
  \<^verbatim>\<open>numpy.poly1d\<close>, evaluates the oscillator eigenfunctions on a grid and plots them.
  This theory embeds the numerical core of its code cell. Python's \<^verbatim>\<open>float\<close> is
  idealised as \<^typ>\<open>real\<close>: rounding, overflow and \<^verbatim>\<open>nan\<close> are outside the model, and
  every statement below is a statement about exact arithmetic. Python's \<^verbatim>\<open>int\<close> is
  \<^typ>\<open>int\<close>. A raised exception is the left injection of a sum.
\<close>

subsection \<open>Python lists\<close>

datatype error = IndexError | ValueError | TypeError

definition bind_err :: "error + 'a \<Rightarrow> ('a \<Rightarrow> error + 'b) \<Rightarrow> error + 'b" where
  "bind_err m f = (case m of Inl e \<Rightarrow> Inl e | Inr a \<Rightarrow> f a)"

text \<open>
  Subscripts: an index \<open>i\<close> with \<open>0 \<le> i < len\<close> names position \<open>i\<close>, an index with
  \<open>- len \<le> i < 0\<close> names position \<open>len + i\<close>, and any other index raises.
\<close>

definition py_index :: "nat \<Rightarrow> int \<Rightarrow> nat option" where
  "py_index len i =
     (if 0 \<le> i \<and> i < int len then Some (nat i)
      else if i < 0 \<and> - int len \<le> i then Some (nat (int len + i))
      else None)"

text \<open>\<^verbatim>\<open>xs[i]\<close>\<close>

definition py_getitem :: "'a list \<Rightarrow> int \<Rightarrow> error + 'a" where
  "py_getitem xs i =
     (case py_index (length xs) i of None \<Rightarrow> Inl IndexError | Some j \<Rightarrow> Inr (xs ! j))"

text \<open>\<^verbatim>\<open>xs[i] = v\<close>, returning the updated list.\<close>

definition py_setitem :: "'a list \<Rightarrow> int \<Rightarrow> 'a \<Rightarrow> error + 'a list" where
  "py_setitem xs i v =
     (case py_index (length xs) i of None \<Rightarrow> Inl IndexError | Some j \<Rightarrow> Inr (xs[j := v]))"

text \<open>\<^verbatim>\<open>[None] * k\<close>: a count that is zero or negative gives the empty list.\<close>

definition py_repeat_None :: "int \<Rightarrow> 'a option list" where
  "py_repeat_None k = replicate (nat k) None"

subsection \<open>The \<^verbatim>\<open>numpy.poly1d\<close> operations the notebook calls\<close>

text \<open>
  A \<^verbatim>\<open>poly1d\<close> holds its coefficients highest degree first. The constructor strips
  leading zeros (\<^verbatim>\<open>trim_zeros(c, trim='f')\<close>) and stores \<^verbatim>\<open>[0]\<close> when nothing is left.
\<close>

definition poly1d :: "real list \<Rightarrow> real list" where
  "poly1d c = (let t = dropWhile (\<lambda>a. a = 0) c in if t = [] then [0] else t)"

text \<open>
  \<^verbatim>\<open>numpy.convolve(a, v)\<close>, the full discrete convolution
  \<open>(a * v)[k] = \<Sum>m. a[m] * v[k - m]\<close> of length \<open>len a + len v - 1\<close>. NumPy raises on an
  empty argument; the constructor above never yields one.
\<close>

definition convolve :: "real list \<Rightarrow> real list \<Rightarrow> real list" where
  "convolve a v =
     map (\<lambda>k. \<Sum>m\<leftarrow>[0..<Suc k].
                 if m < length a \<and> k - m < length v then a ! m * v ! (k - m) else 0)
         [0..<length a + length v - 1]"

text \<open>\<^verbatim>\<open>p * q\<close> for two \<^verbatim>\<open>poly1d\<close>: \<^verbatim>\<open>poly1d(polymul(p.coeffs, q.coeffs))\<close>.\<close>

definition polymul :: "real list \<Rightarrow> real list \<Rightarrow> real list" where
  "polymul a1 a2 = convolve (poly1d a1) (poly1d a2)"

definition poly1d_mul :: "real list \<Rightarrow> real list \<Rightarrow> real list" where
  "poly1d_mul p q = poly1d (polymul p q)"

text \<open>\<^verbatim>\<open>c * p\<close> for a scalar \<^verbatim>\<open>c\<close> (\<^verbatim>\<open>__rmul__\<close>): \<^verbatim>\<open>poly1d(c * p.coeffs)\<close>.\<close>

definition poly1d_rmul :: "real \<Rightarrow> real list \<Rightarrow> real list" where
  "poly1d_rmul c p = poly1d (map (\<lambda>a. c * a) p)"

text \<open>
  \<^verbatim>\<open>p - q\<close>: \<^verbatim>\<open>polysub\<close> pads the shorter coefficient array with leading zeros and
  subtracts elementwise; the result is wrapped by the constructor.
\<close>

definition polysub :: "real list \<Rightarrow> real list \<Rightarrow> real list" where
  "polysub a1 a2 =
     (let diff = int (length a2) - int (length a1)
      in if diff = 0 then map2 (\<lambda>a b. a - b) a1 a2
         else if diff > 0 then map2 (\<lambda>a b. a - b) (replicate (nat diff) 0 @ a1) a2
         else map2 (\<lambda>a b. a - b) a1 (replicate (nat (- diff)) 0 @ a2))"

definition poly1d_sub :: "real list \<Rightarrow> real list \<Rightarrow> real list" where
  "poly1d_sub p q = poly1d (polysub p q)"

text \<open>\<^verbatim>\<open>p(x)\<close>: \<^verbatim>\<open>polyval\<close>, Horner's scheme from the leading coefficient down.\<close>

definition polyval :: "real list \<Rightarrow> real \<Rightarrow> real" where
  "polyval p x = foldl (\<lambda>y pv. y * x + pv) 0 p"

text \<open>\<^verbatim>\<open>p.order\<close>, the degree, and \<^verbatim>\<open>p[k]\<close>, the coefficient of \<open>x\<^sup>k\<close>.\<close>

definition poly_order :: "real list \<Rightarrow> nat" where
  "poly_order p = length p - 1"

definition coeff :: "real list \<Rightarrow> nat \<Rightarrow> real" where
  "coeff p k = (if k > poly_order p then 0 else p ! (poly_order p - k))"

text \<open>
  A slot of the list \<^verbatim>\<open>Hr\<close> holds \<^verbatim>\<open>None\<close> or a \<^verbatim>\<open>poly1d\<close>. Arithmetic on, or a call
  of, \<^verbatim>\<open>None\<close> raises \<^verbatim>\<open>TypeError\<close>.
\<close>

type_synonym slot = "real list option"

fun mul_op :: "slot \<Rightarrow> slot \<Rightarrow> error + slot" where
  "mul_op (Some p) (Some q) = Inr (Some (poly1d_mul p q))"
| "mul_op _ _ = Inl TypeError"

fun rmul_op :: "int \<Rightarrow> slot \<Rightarrow> error + slot" where
  "rmul_op c (Some q) = Inr (Some (poly1d_rmul (of_int c) q))"
| "rmul_op c None = Inl TypeError"

fun sub_op :: "slot \<Rightarrow> slot \<Rightarrow> error + slot" where
  "sub_op (Some p) (Some q) = Inr (Some (poly1d_sub p q))"
| "sub_op _ _ = Inl TypeError"

fun call_op :: "slot \<Rightarrow> real \<Rightarrow> error + real" where
  "call_op (Some p) x = Inr (polyval p x)"
| "call_op None x = Inl TypeError"

subsection \<open>The code cell\<close>

definition XPAD_FRAC :: real where
  "XPAD_FRAC = 13 / 10"

text \<open>
  \<^verbatim>\<open>NORM_CONST = lambda n: 1./np.sqrt(np.sqrt(np.pi)*2**n*math.factorial(n))\<close>;
  \<^verbatim>\<open>math.factorial\<close> raises \<^verbatim>\<open>ValueError\<close> on a negative argument.
\<close>

definition NORM_CONST :: "int \<Rightarrow> error + real" where
  "NORM_CONST n =
     (if n < 0 then Inl ValueError
      else Inr (1 / sqrt (sqrt pi * 2 ^ nat n * fact (nat n))))"

text \<open>\<^verbatim>\<open>get_E = lambda n: n + 0.5\<close>\<close>

definition get_E :: "real \<Rightarrow> real" where
  "get_E n = n + 1 / 2"

text \<open>
  One pass of the loop body
  \<^verbatim>\<open>Hr[n] = Hr[1]*Hr[n-1] - 2*(n-1)*Hr[n-2]\<close>, operands read left to right.
\<close>

definition Hr_step :: "int \<Rightarrow> slot list \<Rightarrow> error + slot list" where
  "Hr_step n Hr =
     bind_err (py_getitem Hr 1) (\<lambda>h1.
     bind_err (py_getitem Hr (n - 1)) (\<lambda>a.
     bind_err (mul_op h1 a) (\<lambda>lhs.
     bind_err (py_getitem Hr (n - 2)) (\<lambda>b.
     bind_err (rmul_op (2 * (n - 1)) b) (\<lambda>rhs.
     bind_err (sub_op lhs rhs) (\<lambda>v.
     py_setitem Hr n v))))))"

fun Hr_loop :: "int list \<Rightarrow> slot list \<Rightarrow> error + slot list" where
  "Hr_loop [] Hr = Inr Hr"
| "Hr_loop (n # ns) Hr = bind_err (Hr_step n Hr) (Hr_loop ns)"

text \<open>
  \<^verbatim>\<open>make_Hr()\<close> reads the module constant \<^verbatim>\<open>N\<close>, here its argument.
  \<^verbatim>\<open>range(2, N+1)\<close> is the list \<open>[2..N]\<close>.
\<close>

definition make_Hr :: "int \<Rightarrow> error + slot list" where
  "make_Hr N =
     bind_err (py_setitem (py_repeat_None (N + 1)) 0 (Some (poly1d [1]))) (\<lambda>Hr0.
     bind_err (py_setitem Hr0 1 (Some (poly1d [2, 0]))) (\<lambda>Hr1.
     Hr_loop [2..N] Hr1))"

text \<open>
  \<^verbatim>\<open>get_psi(n, x)\<close> reads the module's list \<^verbatim>\<open>Hr\<close>, here its first argument:
  \<^verbatim>\<open>NORM_CONST(n)*Hr[n](x)*np.exp(-x*x/2.)\<close> at one point \<^verbatim>\<open>x\<close>.
\<close>

definition get_psi :: "slot list \<Rightarrow> int \<Rightarrow> real \<Rightarrow> error + real" where
  "get_psi Hr n x =
     bind_err (NORM_CONST n) (\<lambda>c.
     bind_err (py_getitem Hr n) (\<lambda>h.
     bind_err (call_op h x) (\<lambda>y.
     Inr (c * y * exp ((- x) * x / 2)))))"

text \<open>
  \<^verbatim>\<open>get_turning_points(n)\<close>:
  \<^verbatim>\<open>xmax = np.sqrt(2. * get_E(n + 0.5)); return -xmax, xmax\<close>
\<close>

definition get_turning_points :: "int \<Rightarrow> real \<times> real" where
  "get_turning_points n =
     (let xmax = sqrt (2 * get_E (of_int n + 1 / 2)) in (- xmax, xmax))"

text \<open>\<^verbatim>\<open>get_potential(x)\<close>: \<^verbatim>\<open>x**2 / 2\<close>\<close>

definition get_potential :: "real \<Rightarrow> real" where
  "get_potential x = x\<^sup>2 / 2"

text \<open>
  \<^verbatim>\<open>numpy.linspace(start, stop, num)\<close> with the default \<^verbatim>\<open>endpoint=True\<close>: the samples
  \<open>start + i * step\<close> with \<open>step = (stop - start) / (num - 1)\<close>, the last one overwritten
  by \<^verbatim>\<open>stop\<close> when \<open>num > 1\<close>.
\<close>

definition linspace :: "real \<Rightarrow> real \<Rightarrow> nat \<Rightarrow> real list" where
  "linspace start stop num =
     (let step = (stop - start) / (real num - 1);
          y = map (\<lambda>i. real i * step + start) [0..<num]
      in if num > 1 then y[num - 1 := stop] else y)"

text \<open>
  The module-level lines
  \<^verbatim>\<open>xmin, xmax = get_turning_points(N)\<close>,
  \<^verbatim>\<open>zmin, zmax = XPAD_FRAC * xmin, XPAD_FRAC * xmax\<close>,
  \<^verbatim>\<open>x = np.linspace(xmin, xmax, 500)\<close>, and the later \<^verbatim>\<open>ax.set_xlim(zmin, zmax)\<close>.
\<close>

definition grid_x :: "int \<Rightarrow> real list" where
  "grid_x N = (case get_turning_points N of (xmin, xmax) \<Rightarrow> linspace xmin xmax 500)"

definition xlim :: "int \<Rightarrow> real \<times> real" where
  "xlim N = (case get_turning_points N of (xmin, xmax) \<Rightarrow> (XPAD_FRAC * xmin, XPAD_FRAC * xmax))"

subsection \<open>The loop's values and states, for the proofs\<close>

text \<open>
  \<open>Hr_poly n\<close> is the polynomial the loop stores in slot \<open>n\<close>, written with the loop
  body's own operations; \<open>Hr_state n M\<close> is the list \<^verbatim>\<open>Hr\<close> of length \<open>M\<close> once the
  slots below \<open>n\<close> are filled.
\<close>

fun Hr_poly :: "nat \<Rightarrow> real list" where
  "Hr_poly 0 = poly1d [1]"
| "Hr_poly (Suc 0) = poly1d [2, 0]"
| "Hr_poly (Suc (Suc n)) =
     poly1d_sub (poly1d_mul (Hr_poly (Suc 0)) (Hr_poly (Suc n)))
                (poly1d_rmul (of_int (2 * (int (Suc (Suc n)) - 1))) (Hr_poly n))"

definition Hr_state :: "nat \<Rightarrow> nat \<Rightarrow> slot list" where
  "Hr_state n M = map (\<lambda>k. Some (Hr_poly k)) [0..<n] @ replicate (M - n) None"

section \<open>Properties of the NumPy operations\<close>

lemma poly1d_id: "p \<noteq> [] \<Longrightarrow> hd p \<noteq> 0 \<Longrightarrow> poly1d p = p"
  by (cases p) (simp_all add: poly1d_def)

lemma poly1d_nonempty: "poly1d c \<noteq> []"
  by (simp add: poly1d_def Let_def)

lemma conv_sum_two:
  fixes f :: "nat \<Rightarrow> real"
  assumes "\<And>m. 1 \<le> m \<Longrightarrow> f m = 0"
  shows "(\<Sum>m\<leftarrow>[0..<Suc k]. f m) = f 0"
proof -
  have "(\<Sum>m\<leftarrow>[0..<Suc k]. f m) = f 0 + (\<Sum>m\<leftarrow>[Suc 0..<Suc k]. f m)"
    by (simp add: upt_conv_Cons del: upt_Suc)
  also have "(\<Sum>m\<leftarrow>[Suc 0..<Suc k]. f m) = (\<Sum>m\<leftarrow>[Suc 0..<Suc k]. 0)"
    by (rule arg_cong[where f=sum_list], rule map_cong) (auto simp: assms)
  finally show ?thesis by simp
qed

lemma convolve_2x:
  assumes "v \<noteq> []"
  shows "convolve [2, 0] v = map (\<lambda>a. 2 * a) v @ [0]"
proof (rule nth_equalityI)
  show "length (convolve [2, 0] v) = length (map (\<lambda>a. 2 * a) v @ [0])"
    using assms by (simp add: convolve_def)
next
  fix k assume "k < length (convolve [2, 0] v)"
  then have k: "k < Suc (length v)" by (simp add: convolve_def)
  let ?f = "\<lambda>m. if m < length [2, 0::real] \<and> k - m < length v then [2, 0] ! m * v ! (k - m) else 0"
  have z: "\<And>m. 1 \<le> m \<Longrightarrow> ?f m = 0"
    by (auto simp: less_Suc_eq nth_Cons')
  have "convolve [2, 0] v ! k = (\<Sum>m\<leftarrow>[0..<Suc k]. ?f m)"
    using k unfolding convolve_def by (subst nth_map_upt) (simp_all del: upt_Suc cong del: if_weak_cong)
  also have "\<dots> = ?f 0" by (rule conv_sum_two[OF z])
  also have "\<dots> = (map (\<lambda>a. 2 * a) v @ [0]) ! k"
    using k by (auto simp: nth_append less_Suc_eq)
  finally show "convolve [2, 0] v ! k = (map (\<lambda>a. 2 * a) v @ [0]) ! k" .
qed

lemma polyval_foldl: "foldl (\<lambda>y pv. y * x + pv) a (p @ [c]) = foldl (\<lambda>y pv. y * x + pv) a p * x + c"
  by simp

lemma polyval_snoc: "polyval (p @ [c]) x = polyval p x * x + c"
  by (simp add: polyval_def)

lemma polyval_Nil: "polyval [] x = 0"
  by (simp add: polyval_def)

lemma polyval_scale: "polyval (map (\<lambda>a. c * a) p) x = c * polyval p x"
  by (induction p rule: rev_induct) (simp_all add: polyval_snoc polyval_Nil algebra_simps)

lemma polyval_diff:
  "length p = length q \<Longrightarrow> polyval (map2 (\<lambda>a b. a - b) p q) x = polyval p x - polyval q x"
proof (induction p arbitrary: q rule: rev_induct)
  case Nil
  then show ?case by (simp add: polyval_Nil)
next
  case (snoc a p)
  then obtain q' b where q: "q = q' @ [b]" "length q' = length p"
    by (cases q rule: rev_cases) auto
  from snoc.IH[of q'] q have ih: "polyval (map2 (\<lambda>a b. a - b) p q') x = polyval p x - polyval q' x"
    by simp
  show ?case using q by (simp add: polyval_snoc ih algebra_simps)
qed

lemma polyval_zeros: "polyval (replicate k 0 @ p) x = polyval p x"
proof -
  have "foldl (\<lambda>y pv. y * x + pv) 0 (replicate k 0) = 0"
    by (induction k) simp_all
  then show ?thesis by (simp add: polyval_def)
qed

section \<open>The loop of \<^verbatim>\<open>make_Hr\<close>\<close>

lemma Hr_poly_0: "Hr_poly 0 = [1]"
  by (simp add: poly1d_def)

lemma Hr_poly_1: "Hr_poly (Suc 0) = [2, 0]"
  by (simp add: poly1d_def)

lemma step_explicit:
  assumes q: "length q = Suc (Suc n)" "hd q \<noteq> 0"
    and r: "length r = Suc n" "hd r \<noteq> 0" and c: "c \<noteq> 0"
  shows "poly1d_sub (poly1d_mul [2, 0] q) (poly1d_rmul c r) =
         map2 (\<lambda>a b. a - b) (map (\<lambda>a. 2 * a) q @ [0]) (0 # 0 # map (\<lambda>a. c * a) r)"
proof -
  from q have qne: "q \<noteq> []" by auto
  from r have rne: "r \<noteq> []" by auto
  have hq: "hd (map (\<lambda>a. 2 * a) q @ [0]) = 2 * hd q"
    using qne by (cases q) simp_all
  have m: "poly1d_mul [2, 0] q = map (\<lambda>a. 2 * a) q @ [0]"
    using q qne hq
    by (simp add: poly1d_mul_def polymul_def poly1d_id convolve_2x)
  have hr: "hd (map (\<lambda>a. c * a) r) = c * hd r"
    using rne by (cases r) simp_all
  have s: "poly1d_rmul c r = map (\<lambda>a. c * a) r"
    using r rne hr c by (simp add: poly1d_rmul_def poly1d_id)
  have d: "polysub (map (\<lambda>a. 2 * a) q @ [0]) (map (\<lambda>a. c * a) r) =
           map2 (\<lambda>a b. a - b) (map (\<lambda>a. 2 * a) q @ [0]) (0 # 0 # map (\<lambda>a. c * a) r)"
    using q r by (simp add: polysub_def numeral_2_eq_2)
  have hd: "hd (map2 (\<lambda>a b. a - b) (map (\<lambda>a. 2 * a) q @ [0]) (0 # 0 # map (\<lambda>a. c * a) r)) = 2 * hd q"
    using qne by (cases q) simp_all
  have ne: "map2 (\<lambda>a b. a - b) (map (\<lambda>a. 2 * a) q @ [0]) (0 # 0 # map (\<lambda>a. c * a) r) \<noteq> []"
    using qne by (cases q) simp_all
  show ?thesis
    unfolding poly1d_sub_def m s d using hd ne q by (simp add: poly1d_id)
qed

lemma Hr_poly_shape: "length (Hr_poly n) = Suc n \<and> hd (Hr_poly n) = 2 ^ n"
proof (induction n rule: Hr_poly.induct)
  case 1
  show ?case by (simp add: poly1d_def)
next
  case 2
  show ?case by (simp add: poly1d_def)
next
  case (3 n)
  let ?q = "Hr_poly (Suc n)" and ?r = "Hr_poly n"
  let ?c = "real_of_int (2 * (int (Suc (Suc n)) - 1))"
  have c: "?c \<noteq> 0" by simp
  have e: "Hr_poly (Suc (Suc n)) =
           map2 (\<lambda>a b. a - b) (map (\<lambda>a. 2 * a) ?q @ [0]) (0 # 0 # map (\<lambda>a. ?c * a) ?r)"
    unfolding Hr_poly.simps(3) Hr_poly_1
    by (rule step_explicit) (use 3 c in simp_all)
  have qne: "?q \<noteq> []" using 3 by auto
  have "hd (Hr_poly (Suc (Suc n))) = 2 * hd ?q"
    unfolding e using qne by (cases ?q) simp_all
  moreover have "length (Hr_poly (Suc (Suc n))) = Suc (Suc (Suc n))"
    unfolding e using 3 by simp
  ultimately show ?case using 3 by simp
qed

lemma Hr_poly_rec:
  "Hr_poly (Suc (Suc n)) =
     map2 (\<lambda>a b. a - b) (map (\<lambda>a. 2 * a) (Hr_poly (Suc n)) @ [0])
          (0 # 0 # map (\<lambda>a. (2 * (real n + 1)) * a) (Hr_poly n))"
proof -
  have c: "real_of_int (2 * (int (Suc (Suc n)) - 1)) = 2 * (real n + 1)" by simp
  have nz: "2 * (real n + 1) \<noteq> 0" by (simp add: add_nonneg_eq_0_iff)
  show ?thesis
    unfolding Hr_poly.simps(3) Hr_poly_1 c
    by (rule step_explicit) (use Hr_poly_shape nz in simp_all)
qed


lemma Hr_state_length: "n \<le> M \<Longrightarrow> length (Hr_state n M) = M"
  by (simp add: Hr_state_def)

lemma Hr_state_nth: "k < n \<Longrightarrow> Hr_state n M ! k = Some (Hr_poly k)"
  by (simp add: Hr_state_def nth_append)

lemma Hr_state_update:
  assumes "n < M"
  shows "(Hr_state n M)[n := Some (Hr_poly n)] = Hr_state (Suc n) M"
proof -
  from assms obtain d where d: "M - n = Suc d" "M - Suc n = d"
    by (cases "M - n") auto
  show ?thesis
    by (simp add: Hr_state_def d list_update_append)
qed

lemma getitem_state:
  "k < n \<Longrightarrow> n \<le> M \<Longrightarrow> py_getitem (Hr_state n M) (int k) = Inr (Some (Hr_poly k))"
  by (simp add: py_getitem_def py_index_def Hr_state_length Hr_state_nth)

lemma Hr_step_state:
  assumes "2 \<le> n" "n < M"
  shows "Hr_step (int n) (Hr_state n M) = Inr (Hr_state (Suc n) M)"
proof -
  from assms obtain m where m: "n = Suc (Suc m)"
    by (cases n; cases "n - 1") auto
  have g1: "py_getitem (Hr_state n M) 1 = Inr (Some (Hr_poly (Suc 0)))"
    using getitem_state[of "Suc 0" n M] assms by simp
  have g2: "py_getitem (Hr_state n M) (int n - 1) = Inr (Some (Hr_poly (Suc m)))"
    using getitem_state[of "Suc m" n M] assms m by simp
  have g3: "py_getitem (Hr_state n M) (int n - 2) = Inr (Some (Hr_poly m))"
    using getitem_state[of m n M] assms m by simp
  have set: "py_setitem (Hr_state n M) (int n) v = Inr ((Hr_state n M)[n := v])" for v
    using assms by (simp add: py_setitem_def py_index_def Hr_state_length)
  have hp: "Hr_poly n = poly1d_sub (poly1d_mul (Hr_poly (Suc 0)) (Hr_poly (Suc m)))
                                   (poly1d_rmul (of_int (2 * (int n - 1))) (Hr_poly m))"
    using m by simp
  have "Hr_step (int n) (Hr_state n M) = Inr ((Hr_state n M)[n := Some (Hr_poly n)])"
    unfolding Hr_step_def g1 g2 g3 hp by (simp add: bind_err_def set)
  then show ?thesis using assms by (simp add: Hr_state_update)
qed

lemma Hr_loop_state:
  "2 \<le> n \<Longrightarrow> n \<le> M \<Longrightarrow> d = M - n \<Longrightarrow>
   Hr_loop [int n..int M - 1] (Hr_state n M) = Inr (Hr_state M M)"
proof (induction d arbitrary: n)
  case 0
  then show ?case by simp
next
  case (Suc d)
  then have lt: "n < M" and d: "d = M - Suc n" by auto
  have u: "[int n..int M - 1] = int n # [int (Suc n)..int M - 1]"
    using lt by (subst upto_rec1) (simp_all add: add.commute)
  show ?case
    unfolding u using Suc.IH[of "Suc n"] Suc.prems lt d
    by (simp add: bind_err_def Hr_step_state)
qed

lemma make_Hr_ok:
  assumes "1 \<le> N"
  shows "make_Hr N = Inr (map (\<lambda>k. Some (Hr_poly k)) [0..<nat N + 1])"
proof -
  define M where "M = nat N + 1"
  have M: "2 \<le> M" "int M - 1 = N" "nat (N + 1) = M" using assms by (auto simp: M_def)
  obtain d where d: "M = Suc (Suc d)" using M(1) by (cases M; cases "M - 1") auto
  have init: "(replicate M None)[0 := Some (Hr_poly 0), Suc 0 := Some (Hr_poly (Suc 0))] = Hr_state 2 M"
    by (simp add: d Hr_state_def numeral_2_eq_2)
  have s0: "py_setitem (py_repeat_None (N + 1)) 0 (Some (poly1d [1])) = Inr ((replicate M None)[0 := Some (poly1d [1])])"
    using M by (simp add: py_setitem_def py_index_def py_repeat_None_def)
  have s1: "py_setitem ((replicate M None)[0 := Some (poly1d [1])]) 1 (Some (poly1d [2, 0])) = Inr (Hr_state 2 M)"
    using M init by (simp add: py_setitem_def py_index_def)
  have "make_Hr N = Hr_loop [2..N] (Hr_state 2 M)"
    unfolding make_Hr_def s0 by (simp add: bind_err_def s1)
  also have "\<dots> = Inr (Hr_state M M)"
    using Hr_loop_state[of 2 M "M - 2"] M by simp
  finally show ?thesis by (simp add: Hr_state_def M_def)
qed

lemma make_Hr_fails: "N < 1 \<Longrightarrow> make_Hr N = Inl IndexError"
proof (cases "N < 0")
  case True
  then show ?thesis by (simp add: make_Hr_def py_repeat_None_def py_setitem_def py_index_def bind_err_def)
next
  case False
  assume "N < 1"
  with False have "N = 0" by simp
  then show ?thesis by (simp add: make_Hr_def py_repeat_None_def py_setitem_def py_index_def bind_err_def)
qed

lemma coeff_Hr_poly: "k \<le> n \<Longrightarrow> coeff (Hr_poly n) k = Hr_poly n ! (n - k)"
  by (simp add: coeff_def poly_order_def Hr_poly_shape)

lemma coeff_Hr_poly_0: "n < k \<Longrightarrow> coeff (Hr_poly n) k = 0"
  by (simp add: coeff_def poly_order_def Hr_poly_shape)

lemma nth_map2: "i < length xs \<Longrightarrow> i < length ys \<Longrightarrow> map2 f xs ys ! i = f (xs ! i) (ys ! i)"
  by simp

lemma Hr_poly_coeff_rec:
  "coeff (Hr_poly (Suc (Suc n))) k =
     2 * (if k = 0 then 0 else coeff (Hr_poly (Suc n)) (k - 1))
     - 2 * (real n + 1) * coeff (Hr_poly n) k"
proof (cases "k \<le> Suc (Suc n)")
  case False
  then show ?thesis by (simp add: coeff_Hr_poly_0 del: Hr_poly.simps)
next
  case True
  define q where "q = Hr_poly (Suc n)"
  define r where "r = Hr_poly n"
  define i where "i = Suc (Suc n) - k"
  define c where "c = 2 * (real n + 1)"
  have lq: "length q = Suc (Suc n)" and lr: "length r = Suc n"
    by (simp_all add: q_def r_def Hr_poly_shape del: Hr_poly.simps)
  have i: "i < Suc (Suc (Suc n))" by (simp add: i_def)
  have rec: "Hr_poly (Suc (Suc n)) = map2 (\<lambda>a b. a - b) (map (\<lambda>a. 2 * a) q @ [0]) (0 # 0 # map (\<lambda>a. c * a) r)"
    unfolding q_def r_def c_def by (rule Hr_poly_rec)
  have "coeff (Hr_poly (Suc (Suc n))) k = Hr_poly (Suc (Suc n)) ! i"
    unfolding i_def using True by (rule coeff_Hr_poly)
  also have "\<dots> = (map (\<lambda>a. 2 * a) q @ [0]) ! i - (0 # 0 # map (\<lambda>a. c * a) r) ! i"
    unfolding rec by (rule nth_map2) (use i lq lr in simp_all)
  also have "(map (\<lambda>a. 2 * a) q @ [0]) ! i = 2 * (if k = 0 then 0 else coeff q (k - 1))"
  proof (cases "k = 0")
    case True
    then show ?thesis using lq by (simp add: nth_append i_def)
  next
    case False
    with True have a: "i < length q" and b: "k - 1 \<le> Suc n" and e: "Suc n - (k - 1) = i"
      using lq by (auto simp: i_def)
    have "coeff q (k - 1) = q ! i"
      unfolding q_def using coeff_Hr_poly[OF b] e by simp
    then show ?thesis using False a by (simp add: nth_append)
  qed
  also have "(0 # 0 # map (\<lambda>a. c * a) r) ! i = c * coeff r k"
  proof (cases "k \<le> n")
    case False
    with True have "i = 0 \<or> i = Suc 0" by (auto simp: i_def)
    moreover have "coeff r k = 0" unfolding r_def using False by (simp add: coeff_Hr_poly_0)
    ultimately show ?thesis by auto
  next
    case True
    then have j: "i = Suc (Suc (n - k))" by (simp add: i_def)
    have "coeff r k = r ! (n - k)" unfolding r_def using True by (rule coeff_Hr_poly)
    moreover have "n - k < length r" using lr by simp
    ultimately show ?thesis by (simp add: j)
  qed
  finally show ?thesis by (simp add: q_def r_def c_def)
qed

lemma Hr_poly_val_rec:
  "polyval (Hr_poly (Suc (Suc n))) x =
     2 * x * polyval (Hr_poly (Suc n)) x - 2 * (real n + 1) * polyval (Hr_poly n) x"
proof -
  define q where "q = Hr_poly (Suc n)"
  define r where "r = Hr_poly n"
  define c where "c = 2 * (real n + 1)"
  have lq: "length q = Suc (Suc n)" and lr: "length r = Suc n"
    by (simp_all add: q_def r_def Hr_poly_shape del: Hr_poly.simps)
  have rec: "Hr_poly (Suc (Suc n)) = map2 (\<lambda>a b. a - b) (map (\<lambda>a. 2 * a) q @ [0]) (0 # 0 # map (\<lambda>a. c * a) r)"
    unfolding q_def r_def c_def by (rule Hr_poly_rec)
  have z: "0 # 0 # map (\<lambda>a. c * a) r = replicate 2 0 @ map (\<lambda>a. c * a) r"
    by (simp add: numeral_2_eq_2)
  have "polyval (Hr_poly (Suc (Suc n))) x =
        polyval (map (\<lambda>a. 2 * a) q @ [0]) x - polyval (0 # 0 # map (\<lambda>a. c * a) r) x"
    unfolding rec by (rule polyval_diff) (simp add: lq lr)
  also have "polyval (map (\<lambda>a. 2 * a) q @ [0]) x = 2 * x * polyval q x"
    by (simp add: polyval_snoc polyval_scale)
  also have "polyval (0 # 0 # map (\<lambda>a. c * a) r) x = c * polyval r x"
    unfolding z polyval_zeros by (rule polyval_scale)
  finally show ?thesis unfolding q_def r_def c_def .
qed

lemma Hr_poly_parity: "polyval (Hr_poly n) (- x) = (- 1) ^ n * polyval (Hr_poly n) x"
proof (induction n rule: Hr_poly.induct)
  case 1
  show ?case by (simp add: poly1d_def polyval_def)
next
  case 2
  show ?case by (simp add: poly1d_def polyval_def)
next
  case (3 n)
  show ?case
    unfolding Hr_poly_val_rec 3 by (simp add: algebra_simps)
qed

lemma polyval_sum: "polyval p x = (\<Sum>k<length p. coeff p k * x ^ k)"
proof (induction p rule: rev_induct)
  case Nil
  show ?case by (simp add: polyval_Nil)
next
  case (snoc c p)
  have s: "coeff (p @ [c]) (Suc k) = coeff p k" if "k < length p" for k
  proof -
    from that have a: "length p - Suc k < length p" by simp
    from that have b: "length p - Suc k = length p - 1 - k" by simp
    have "coeff (p @ [c]) (Suc k) = (p @ [c]) ! (length p - Suc k)"
      using that by (simp add: coeff_def poly_order_def)
    also have "\<dots> = p ! (length p - Suc k)"
      using a by (simp add: nth_append)
    also have "\<dots> = coeff p k"
    proof -
      from that have "\<not> length p - 1 < k" by linarith
      then show ?thesis using b by (simp add: coeff_def poly_order_def)
    qed
    finally show ?thesis .
  qed
  have c0: "coeff (p @ [c]) 0 = c"
    by (simp add: coeff_def poly_order_def)
  have "(\<Sum>k<Suc (length p). coeff (p @ [c]) k * x ^ k) =
        coeff (p @ [c]) 0 * x ^ 0 + (\<Sum>k<length p. coeff (p @ [c]) (Suc k) * x ^ Suc k)"
    by (rule sum.lessThan_Suc_shift)
  also have "(\<Sum>k<length p. coeff (p @ [c]) (Suc k) * x ^ Suc k) =
             (\<Sum>k<length p. coeff p k * x ^ k * x)"
    by (rule sum.cong) (simp_all add: s)
  also have "\<dots> = polyval p x * x"
    by (simp add: snoc.IH sum_distrib_right)
  finally have "(\<Sum>k<Suc (length p). coeff (p @ [c]) k * x ^ k) = c + polyval p x * x"
    by (simp add: c0)
  then show ?case by (simp add: polyval_snoc del: sum.lessThan_Suc)
qed

lemma make_Hr_nth:
  "n \<le> nat N \<Longrightarrow> map (\<lambda>k. Some (Hr_poly k)) [0..<nat N + 1] ! n = Some (Hr_poly n)"
  by (simp del: Hr_poly.simps upt_Suc add: nth_map_upt)

lemma Hr_poly_2: "Hr_poly 2 = [4, 0, - 2]"
proof -
  have "Hr_poly (Suc (Suc 0)) = [4, 0, - 2]"
    unfolding Hr_poly_rec Hr_poly_0 Hr_poly_1 by simp
  then show ?thesis by (simp only: numeral_2_eq_2)
qed

lemma Hr_poly_3: "Hr_poly 3 = [8, 0, - 12, 0]"
proof -
  have "Hr_poly (Suc (Suc (Suc 0))) = [8, 0, - 12, 0]"
    unfolding Hr_poly_rec[of "Suc 0"] Hr_poly_2[unfolded numeral_2_eq_2] Hr_poly_1 by simp
  then show ?thesis by (simp only: numeral_3_eq_3)
qed

lemma get_psi_family:
  assumes "0 \<le> n" and "n \<le> N"
  shows "get_psi (map (\<lambda>k. Some (Hr_poly k)) [0..<nat N + 1]) n x =
         Inr (1 / sqrt (sqrt pi * 2 ^ nat n * fact (nat n)) * polyval (Hr_poly (nat n)) x
              * exp (- x\<^sup>2 / 2))"
proof -
  let ?Hr = "map (\<lambda>k. Some (Hr_poly k)) [0..<nat N + 1]"
  have c: "NORM_CONST n = Inr (1 / sqrt (sqrt pi * 2 ^ nat n * fact (nat n)))"
    using assms(1) by (simp add: NORM_CONST_def)
  have le: "nat n \<le> nat N" using assms by simp
  have len: "int (length ?Hr) = N + 1" using assms by simp
  have g: "py_getitem ?Hr n = Inr (?Hr ! nat n)"
    unfolding py_getitem_def py_index_def len using assms by simp
  have h: "py_getitem ?Hr n = Inr (Some (Hr_poly (nat n)))"
    unfolding g make_Hr_nth[OF le] ..
  have e: "(- x) * x / 2 = - x\<^sup>2 / 2" by (simp add: power2_eq_square)
  show ?thesis
    unfolding get_psi_def c h e by (simp add: bind_err_def del: Hr_poly.simps)
qed

lemma get_psi_negative: "n < 0 \<Longrightarrow> get_psi Hr n x = Inl ValueError"
  by (simp add: get_psi_def NORM_CONST_def bind_err_def)

lemma get_psi_too_large:
  assumes "0 \<le> n" and "int (length Hr) \<le> n"
  shows "get_psi Hr n x = Inl IndexError"
proof -
  have g: "py_getitem Hr n = Inl IndexError"
    using assms by (simp add: py_getitem_def py_index_def)
  have c: "NORM_CONST n = Inr (1 / sqrt (sqrt pi * 2 ^ nat n * fact (nat n)))"
    using assms(1) by (simp add: NORM_CONST_def)
  show ?thesis unfolding get_psi_def c g by (simp add: bind_err_def)
qed

lemma make_Hr_Inr:
  assumes "make_Hr N = Inr Hr"
  shows "1 \<le> N \<and> Hr = map (\<lambda>k. Some (Hr_poly k)) [0..<nat N + 1]"
proof (cases "1 \<le> N")
  case True
  with make_Hr_ok[OF True] assms show ?thesis by simp
next
  case False
  then have "make_Hr N = Inl IndexError" by (simp add: make_Hr_fails)
  with assms show ?thesis by simp
qed

lemma quarter_power: "1 / sqrt (sqrt pi) = pi powr (- 1 / 4)"
proof -
  have "sqrt (sqrt pi) = (pi powr (1 / 2)) powr (1 / 2)"
    by (simp add: powr_half_sqrt)
  also have "\<dots> = pi powr (1 / 4)" by (simp add: powr_powr)
  finally have "1 / sqrt (sqrt pi) = 1 / pi powr (1 / 4)" by simp
  also have "\<dots> = pi powr (- (1 / 4))" by (simp add: powr_minus_divide)
  finally show ?thesis by simp
qed

lemma linspace_length: "length (linspace a b n) = n"
  by (simp add: linspace_def Let_def)

lemma linspace_hd:
  assumes "1 < n"
  shows "hd (linspace a b n) = a"
proof -
  let ?y = "map (\<lambda>i. real i * ((b - a) / (real n - 1)) + a) [0..<n]"
  have ne: "?y[n - 1 := b] \<noteq> []" using assms by simp
  have "hd (linspace a b n) = (?y[n - 1 := b]) ! 0"
    using assms ne by (simp add: linspace_def Let_def hd_conv_nth del: upt_Suc)
  also have "\<dots> = ?y ! 0" using assms by (simp del: upt_Suc)
  also have "\<dots> = a" using assms by (simp add: nth_map_upt del: upt_Suc)
  finally show ?thesis .
qed

lemma linspace_last:
  assumes "1 < n"
  shows "last (linspace a b n) = b"
proof -
  let ?y = "map (\<lambda>i. real i * ((b - a) / (real n - 1)) + a) [0..<n]"
  have ne: "?y[n - 1 := b] \<noteq> []" using assms by simp
  have "last (linspace a b n) = (?y[n - 1 := b]) ! (length (?y[n - 1 := b]) - 1)"
    using assms ne by (simp add: linspace_def Let_def last_conv_nth del: upt_Suc)
  also have "\<dots> = b" using assms by (simp del: upt_Suc)
  finally show ?thesis .
qed

lemma linspace_bounds:
  assumes "a \<le> b" and "x \<in> set (linspace a b n)"
  shows "a \<le> x \<and> x \<le> b"
proof -
  define f where "f = (\<lambda>i. real i * ((b - a) / (real n - 1)) + a)"
  have pt: "a \<le> f i \<and> f i \<le> b" if "i < n" for i
  proof (cases "n = 1")
    case True
    with that assms(1) show ?thesis by (simp add: f_def)
  next
    case False
    with that have n: "0 < real n - 1" and i: "real i \<le> real n - 1" by auto
    have t: "0 \<le> real i / (real n - 1)" "real i / (real n - 1) \<le> 1"
      using n i by simp_all
    have e: "f i = (b - a) * (real i / (real n - 1)) + a" by (simp add: f_def)
    have d: "0 \<le> b - a" using assms(1) by simp
    have "0 \<le> (b - a) * (real i / (real n - 1))"
      using d t(1) by (rule mult_nonneg_nonneg)
    moreover have "(b - a) * (real i / (real n - 1)) \<le> b - a"
      using t(2) d by (rule mult_left_le)
    ultimately show ?thesis unfolding e by linarith
  qed
  have l: "linspace a b n = (if 1 < n then (map f [0..<n])[n - 1 := b] else map f [0..<n])"
    unfolding linspace_def f_def Let_def ..
  have "set (linspace a b n) \<subseteq> insert b (set (map f [0..<n]))"
    unfolding l using set_update_subset_insert[of "map f [0..<n]" "n - 1" b] by auto
  with assms(2) have "x \<in> insert b (f ` {0..<n})" by auto
  then consider "x = b" | i where "i < n" "x = f i" by auto
  then show ?thesis using pt assms(1) by cases auto
qed

lemma turning_points_value:
  "get_turning_points n = (- sqrt (2 * of_int n + 2), sqrt (2 * of_int n + 2))"
  by (simp add: get_turning_points_def get_E_def Let_def algebra_simps)

section \<open>Energy levels and turning points\<close>

text \<open>
  Claim C9. For every quantum number \<open>n\<close> the energy level \<^verbatim>\<open>get_E(n)\<close> is \<open>n + 1/2\<close>;
  in particular \<^verbatim>\<open>get_E(0)\<close> is \<open>0.5\<close> and \<^verbatim>\<open>get_E(3)\<close> is \<open>3.5\<close>.
\<close>

theorem get_E_value:
  "get_E (of_int n) = of_int n + 1 / 2 \<and> get_E 0 = 0.5 \<and> get_E 3 = 3.5"
  by (simp add: get_E_def)

text \<open>
  Claim C3. \<^verbatim>\<open>get_turning_points(n)\<close> is documented to return the classical turning
  points of state \<open>n\<close>, the points \<open>\<plusminus> sqrt (2 E)\<close> with \<open>E = get_E n\<close> where the potential
  equals the energy level. The code passes \<open>n + 0.5\<close> to \<^verbatim>\<open>get_E\<close>, which adds the half
  a second time: at \<open>n = 0\<close> it returns \<open>\<plusminus> sqrt 2\<close>, not \<open>\<plusminus> 1\<close>, and the potential at the
  returned point is \<open>get_E 0 + 1/2\<close>.
\<close>

theorem get_turning_points_at_0:
  "get_turning_points 0 = (- sqrt 2, sqrt 2) \<and>
   get_turning_points 0 \<noteq> (- sqrt (2 * get_E 0), sqrt (2 * get_E 0)) \<and>
   sqrt (2 * get_E 0) = 1 \<and>
   get_potential (snd (get_turning_points 0)) = get_E 0 + 1 / 2"
  by (simp add: get_turning_points_def get_E_def get_potential_def Let_def)

section \<open>The Hermite family built by \<^verbatim>\<open>make_Hr\<close>\<close>

text \<open>
  Claim C1. For \<open>N \<ge> 1\<close> the call \<^verbatim>\<open>make_Hr()\<close> returns a list of \<open>N + 1\<close> polynomials
  that satisfies the Hermite recurrence: slot 0 is the constant polynomial \<open>1\<close>, slot 1 is
  \<open>2x\<close>, and for every \<open>n\<close> with \<open>2 \<le> n \<le> N\<close> slot \<open>n\<close> equals
  \<open>2x * Hr[n-1] - 2(n-1) * Hr[n-2]\<close>, coefficient by coefficient and at every point \<open>x\<close>.
\<close>

theorem make_Hr_recurrence:
  assumes "1 \<le> N"
  shows "\<exists>Hr. make_Hr N = Inr Hr \<and> length Hr = nat N + 1 \<and>
           Hr ! 0 = Some [1] \<and> Hr ! 1 = Some [2, 0] \<and>
           (\<forall>n. 2 \<le> n \<and> n \<le> nat N \<longrightarrow>
              (\<exists>p q r. Hr ! n = Some p \<and> Hr ! (n - 1) = Some q \<and> Hr ! (n - 2) = Some r \<and>
                 (\<forall>k. coeff p k = 2 * (if k = 0 then 0 else coeff q (k - 1))
                                  - 2 * (real n - 1) * coeff r k) \<and>
                 (\<forall>x. polyval p x = 2 * x * polyval q x - 2 * (real n - 1) * polyval r x)))"
proof -
  let ?Hr = "map (\<lambda>k. Some (Hr_poly k)) [0..<nat N + 1]"
  have ok: "make_Hr N = Inr ?Hr" using assms by (rule make_Hr_ok)
  have len: "length ?Hr = nat N + 1" by simp
  have h0: "?Hr ! 0 = Some [1]"
  proof -
    have "0 \<le> nat N" by simp
    from make_Hr_nth[OF this] show ?thesis by (simp only: Hr_poly_0)
  qed
  have h1: "?Hr ! 1 = Some [2, 0]"
  proof -
    have "Suc 0 \<le> nat N" using assms by simp
    from make_Hr_nth[OF this] show ?thesis by (simp only: Hr_poly_1 One_nat_def)
  qed
  have rec: "\<exists>p q r. ?Hr ! n = Some p \<and> ?Hr ! (n - 1) = Some q \<and> ?Hr ! (n - 2) = Some r \<and>
                 (\<forall>k. coeff p k = 2 * (if k = 0 then 0 else coeff q (k - 1))
                                  - 2 * (real n - 1) * coeff r k) \<and>
                 (\<forall>x. polyval p x = 2 * x * polyval q x - 2 * (real n - 1) * polyval r x)"
    if n: "2 \<le> n" "n \<le> nat N" for n
  proof -
    from n obtain m where m: "n = Suc (Suc m)"
      by (cases n; cases "n - 1") auto
    have rn: "real n - 1 = real m + 1" by (simp add: m)
    have n1: "n - 1 = Suc m" and n2: "n - 2 = m" by (simp_all add: m)
    have le: "Suc m \<le> nat N" "m \<le> nat N" using n by (simp_all add: m)
    have a: "?Hr ! n = Some (Hr_poly (Suc (Suc m)))"
      using make_Hr_nth[OF n(2)] by (simp only: m)
    have b: "?Hr ! (n - 1) = Some (Hr_poly (Suc m))"
      unfolding n1 by (rule make_Hr_nth[OF le(1)])
    have c: "?Hr ! (n - 2) = Some (Hr_poly m)"
      unfolding n2 by (rule make_Hr_nth[OF le(2)])
    show ?thesis
      unfolding a b c rn using Hr_poly_coeff_rec[of m] Hr_poly_val_rec[of m] by blast
  qed
  show ?thesis
    using ok len h0 h1 rec by blast
qed


theorem make_Hr_recurrence_witness:
  "(1::int) \<le> 2 \<and> (2::nat) \<le> 2 \<and> (2::nat) \<le> nat 2 \<and>
   (\<exists>Hr p q r. make_Hr 2 = Inr Hr \<and> length Hr = 3 \<and> Hr ! 0 = Some [1] \<and> Hr ! 1 = Some [2, 0] \<and>
      Hr ! 2 = Some p \<and> Hr ! 1 = Some q \<and> Hr ! 0 = Some r \<and>
      (\<forall>x. polyval p x = 2 * x * polyval q x - 2 * polyval r x))"
proof -
  have h: "(1::int) \<le> 2" by simp
  from make_Hr_recurrence[OF h] obtain Hr where
    Hr: "make_Hr 2 = Inr Hr" "length Hr = nat 2 + 1" "Hr ! 0 = Some [1]" "Hr ! 1 = Some [2, 0]"
    and rec: "\<forall>n. 2 \<le> n \<and> n \<le> nat 2 \<longrightarrow>
              (\<exists>p q r. Hr ! n = Some p \<and> Hr ! (n - 1) = Some q \<and> Hr ! (n - 2) = Some r \<and>
                 (\<forall>k. coeff p k = 2 * (if k = 0 then 0 else coeff q (k - 1))
                                  - 2 * (real n - 1) * coeff r k) \<and>
                 (\<forall>x. polyval p x = 2 * x * polyval q x - 2 * (real n - 1) * polyval r x))"
    by blast
  have "(2::nat) \<le> 2 \<and> 2 \<le> nat 2" by simp
  with rec obtain p q r where
    "Hr ! 2 = Some p" "Hr ! (2 - 1) = Some q" "Hr ! (2 - 2) = Some r"
    "\<forall>x. polyval p x = 2 * x * polyval q x - 2 * (real 2 - 1) * polyval r x"
    by blast
  with Hr show ?thesis by auto
qed

text \<open>
  Claim C2. For \<open>N \<ge> 1\<close> and every \<open>n\<close> with \<open>0 \<le> n \<le> N\<close> the polynomial in slot \<open>n\<close> of
  the returned list has exact degree \<open>n\<close>: its order is \<open>n\<close> and its coefficient of \<open>x\<^sup>n\<close>
  is \<open>2\<^sup>n\<close>, which is not zero.
\<close>

theorem make_Hr_degree:
  assumes "1 \<le> N" and "n \<le> nat N"
  shows "\<exists>Hr p. make_Hr N = Inr Hr \<and> Hr ! n = Some p \<and>
           poly_order p = n \<and> coeff p n = 2 ^ n \<and> coeff p n \<noteq> 0"
proof -
  let ?Hr = "map (\<lambda>k. Some (Hr_poly k)) [0..<nat N + 1]"
  have ok: "make_Hr N = Inr ?Hr" using assms(1) by (rule make_Hr_ok)
  have nth: "?Hr ! n = Some (Hr_poly n)" using assms(2) by (rule make_Hr_nth)
  have len: "length (Hr_poly n) = Suc n" and hd: "hd (Hr_poly n) = 2 ^ n"
    using Hr_poly_shape[of n] by blast+
  have ord: "poly_order (Hr_poly n) = n"
    unfolding poly_order_def len by simp
  have "Hr_poly n \<noteq> []" using len by auto
  then have "Hr_poly n ! 0 = hd (Hr_poly n)" by (rule hd_conv_nth[symmetric])
  moreover have "coeff (Hr_poly n) n = Hr_poly n ! (n - n)" by (rule coeff_Hr_poly) simp
  ultimately have lead: "coeff (Hr_poly n) n = 2 ^ n" using hd by (simp only: diff_self_eq_0)
  then have "coeff (Hr_poly n) n \<noteq> 0" by (simp only:) simp
  with ok nth ord lead show ?thesis by blast
qed

theorem make_Hr_degree_witness:
  "(1::int) \<le> 6 \<and> (6::nat) \<le> nat 6 \<and>
   (\<exists>Hr p. make_Hr 6 = Inr Hr \<and> Hr ! 6 = Some p \<and> poly_order p = 6 \<and> coeff p 6 = 64)"
proof -
  have h: "(1::int) \<le> 6" "(6::nat) \<le> nat 6" by simp_all
  from make_Hr_degree[OF h] show ?thesis by auto
qed

text \<open>
  Claim C8. The family matches the closed forms at low degree: for \<open>N \<ge> 2\<close> slot 2 is
  \<open>4x\<^sup>2 - 2\<close>, and for \<open>N \<ge> 3\<close> slot 3 is \<open>8x\<^sup>3 - 12x\<close>, as coefficient sequences and
  hence at every point \<open>x\<close>.
\<close>

theorem make_Hr_low_degree:
  assumes "2 \<le> N"
  shows "\<exists>Hr. make_Hr N = Inr Hr \<and>
           Hr ! 2 = Some [4, 0, - 2] \<and> (\<forall>x. polyval [4, 0, - 2] x = 4 * x\<^sup>2 - 2) \<and>
           (3 \<le> N \<longrightarrow> Hr ! 3 = Some [8, 0, - 12, 0]) \<and>
           (\<forall>x. polyval [8, 0, - 12, 0] x = 8 * x ^ 3 - 12 * x)"
proof -
  let ?Hr = "map (\<lambda>k. Some (Hr_poly k)) [0..<nat N + 1]"
  have ok: "make_Hr N = Inr ?Hr" using assms by (simp add: make_Hr_ok)
  have "2 \<le> nat N" using assms by simp
  from make_Hr_nth[OF this] have h2: "?Hr ! 2 = Some [4, 0, - 2]"
    by (simp only: Hr_poly_2)
  have h3: "?Hr ! 3 = Some [8, 0, - 12, 0]" if "3 \<le> N"
  proof -
    from that have "3 \<le> nat N" by simp
    from make_Hr_nth[OF this] show ?thesis by (simp only: Hr_poly_3)
  qed
  have v2: "polyval [4, 0, - 2] x = 4 * x\<^sup>2 - 2" for x
    by (simp add: polyval_def power2_eq_square)
  have v3: "polyval [8, 0, - 12, 0] x = 8 * x ^ 3 - 12 * x" for x
    by (simp add: polyval_def power3_eq_cube algebra_simps)
  show ?thesis using ok h2 h3 v2 v3 by blast
qed

theorem make_Hr_low_degree_witness:
  "(2::int) \<le> 3 \<and> (3::int) \<le> 3 \<and>
   (\<exists>Hr. make_Hr 3 = Inr Hr \<and> Hr ! 2 = Some [4, 0, - 2] \<and> Hr ! 3 = Some [8, 0, - 12, 0])"
proof -
  have h: "(2::int) \<le> 3" by simp
  from make_Hr_low_degree[OF h] show ?thesis by auto
qed

section \<open>The wavefunction \<^verbatim>\<open>get_psi\<close>\<close>

text \<open>
  Claim C4. With the family built for \<open>N \<ge> 1\<close>, for every quantum number \<open>n\<close> with
  \<open>0 \<le> n \<le> N\<close> and every point \<open>x\<close>, \<^verbatim>\<open>get_psi(n, x)\<close> returns
  \<open>N\<^sub>n * H\<^sub>n(x) * exp (- x\<^sup>2 / 2)\<close> with \<open>N\<^sub>n = 1 / sqrt (sqrt pi * 2\<^sup>n * n!)\<close>, where \<open>H\<^sub>n\<close> is
  slot \<open>n\<close> of the family and \<open>H\<^sub>n(x)\<close> is the value of that polynomial,
  the sum of its coefficients times the powers of \<open>x\<close>.
\<close>

theorem get_psi_formula:
  assumes "1 \<le> N" and "0 \<le> n" and "n \<le> N"
  shows "\<exists>Hr p. make_Hr N = Inr Hr \<and> Hr ! nat n = Some p \<and>
           get_psi Hr n x =
             Inr (1 / sqrt (sqrt pi * 2 ^ nat n * fact (nat n)) * polyval p x * exp (- x\<^sup>2 / 2)) \<and>
           polyval p x = (\<Sum>k\<le>nat n. coeff p k * x ^ k)"
proof -
  let ?Hr = "map (\<lambda>k. Some (Hr_poly k)) [0..<nat N + 1]"
  have ok: "make_Hr N = Inr ?Hr" using assms(1) by (rule make_Hr_ok)
  have le: "nat n \<le> nat N" using assms by simp
  have nth: "?Hr ! nat n = Some (Hr_poly (nat n))" using le by (rule make_Hr_nth)
  have len: "length (Hr_poly (nat n)) = Suc (nat n)"
    using Hr_poly_shape[of "nat n"] by blast
  have val: "polyval (Hr_poly (nat n)) x = (\<Sum>k\<le>nat n. coeff (Hr_poly (nat n)) k * x ^ k)"
    unfolding polyval_sum len lessThan_Suc_atMost ..
  from ok nth get_psi_family[OF assms(2,3)] val show ?thesis by blast
qed

theorem get_psi_formula_witness:
  "(1::int) \<le> 6 \<and> (0::int) \<le> 2 \<and> (2::int) \<le> 6 \<and>
   (\<exists>Hr p. make_Hr 6 = Inr Hr \<and> Hr ! 2 = Some p \<and>
      get_psi Hr 2 1 = Inr (1 / sqrt (sqrt pi * 8) * polyval p 1 * exp (- 1 / 2)))"
proof -
  have h: "(1::int) \<le> 6" "(0::int) \<le> 2" "(2::int) \<le> 6" by simp_all
  have f: "fact (nat 2) = (2::real)" "(2::real) ^ nat 2 = 4"
    by (simp_all add: fact_numeral)
  from get_psi_formula[OF h, of 1] show ?thesis
    unfolding f by auto
qed

text \<open>
  Claim C5. With the family built for \<open>N = 6\<close>, the ground state at the origin is
  \<^verbatim>\<open>get_psi(0, 0)\<close> \<open>= pi powr (- 1/4)\<close>, a strictly positive value, and the first excited
  state at the origin is \<^verbatim>\<open>get_psi(1, 0)\<close> \<open>= 0\<close>.
\<close>

theorem get_psi_at_origin:
  "\<exists>Hr. make_Hr 6 = Inr Hr \<and>
        get_psi Hr 0 0 = Inr (pi powr (- 1 / 4)) \<and> 0 < pi powr (- 1 / 4) \<and>
        get_psi Hr 1 0 = Inr 0"
proof -
  let ?Hr = "map (\<lambda>k. Some (Hr_poly k)) [0..<nat 6 + 1]"
  have ok: "make_Hr 6 = Inr ?Hr" by (rule make_Hr_ok) simp
  have p0: "polyval (Hr_poly (nat 0)) 0 = 1"
    by (simp add: poly1d_def polyval_def)
  have p1: "polyval (Hr_poly (nat 1)) 0 = 0"
    by (simp add: poly1d_def polyval_def)
  have f0: "get_psi ?Hr 0 0 =
            Inr (1 / sqrt (sqrt pi * 2 ^ nat 0 * fact (nat 0)) * polyval (Hr_poly (nat 0)) 0
                 * exp (- 0\<^sup>2 / 2))"
    by (rule get_psi_family) simp_all
  have s0: "1 / sqrt (sqrt pi * 2 ^ nat 0 * fact (nat 0)) * polyval (Hr_poly (nat 0)) 0
              * exp (- 0\<^sup>2 / 2) = pi powr (- 1 / 4)"
    unfolding p0 using quarter_power by simp
  from f0 have g0: "get_psi ?Hr 0 0 = Inr (pi powr (- 1 / 4))"
    by (simp only: s0)
  have f1: "get_psi ?Hr 1 0 =
            Inr (1 / sqrt (sqrt pi * 2 ^ nat 1 * fact (nat 1)) * polyval (Hr_poly (nat 1)) 0
                 * exp (- 0\<^sup>2 / 2))"
    by (rule get_psi_family) simp_all
  have s1: "1 / sqrt (sqrt pi * 2 ^ nat 1 * fact (nat 1)) * polyval (Hr_poly (nat 1)) 0
              * exp (- 0\<^sup>2 / 2) = 0"
    unfolding p1 by simp
  from f1 have g1: "get_psi ?Hr 1 0 = Inr 0"
    by (simp only: s1)
  have pos: "0 < pi powr (- 1 / 4)" by simp
  from ok g0 g1 pos show ?thesis by blast
qed

text \<open>
  Claim C6. Invalid input fails at once: \<^verbatim>\<open>make_Hr\<close> with a negative \<open>N\<close> raises
  (\<^verbatim>\<open>IndexError\<close>), and with the family built for \<open>N\<close>, \<^verbatim>\<open>get_psi(n, x)\<close> raises for
  every \<open>n\<close> outside \<open>0..N\<close>: \<^verbatim>\<open>ValueError\<close> for a negative \<open>n\<close>, \<^verbatim>\<open>IndexError\<close> for
  \<open>n > N\<close>.
\<close>

theorem invalid_input_fails:
  "(N < 0 \<longrightarrow> make_Hr N = Inl IndexError) \<and>
   (make_Hr N = Inr Hr \<longrightarrow>
      (n < 0 \<longrightarrow> get_psi Hr n x = Inl ValueError) \<and>
      (N < n \<longrightarrow> get_psi Hr n x = Inl IndexError))"
proof (intro conjI impI)
  assume "N < 0"
  then show "make_Hr N = Inl IndexError" by (simp add: make_Hr_fails)
next
  assume "n < 0"
  then show "get_psi Hr n x = Inl ValueError" by (rule get_psi_negative)
next
  assume Hr: "make_Hr N = Inr Hr" and n: "N < n"
  from make_Hr_Inr[OF Hr] have N: "1 \<le> N" and len: "int (length Hr) = N + 1"
    by simp_all
  show "get_psi Hr n x = Inl IndexError"
    by (rule get_psi_too_large) (use N n len in simp_all)
qed

theorem invalid_input_fails_witness:
  "(- 1::int) < 0 \<and> make_Hr (- 1) = Inl IndexError \<and>
   (\<exists>Hr. make_Hr 6 = Inr Hr \<and> (- 1::int) < 0 \<and> (6::int) < 7 \<and>
      get_psi Hr (- 1) 0 = Inl ValueError \<and> get_psi Hr 7 0 = Inl IndexError)"
proof -
  obtain Hr where Hr: "make_Hr 6 = Inr Hr" using make_Hr_ok[of 6] by simp
  from invalid_input_fails[of "- 1" Hr 0 0] have a: "make_Hr (- 1) = Inl IndexError" by simp
  from invalid_input_fails[of 6 Hr "- 1" 0] Hr have b: "get_psi Hr (- 1) 0 = Inl ValueError" by simp
  from invalid_input_fails[of 6 Hr 7 0] Hr have c: "get_psi Hr 7 0 = Inl IndexError" by simp
  from Hr a b c show ?thesis by auto
qed

text \<open>
  Claim C10. Parity: for \<open>N \<ge> 1\<close>, every \<open>n\<close> with \<open>0 \<le> n \<le> N\<close> and every real \<open>x\<close>, the
  polynomial in slot \<open>n\<close> satisfies \<open>H\<^sub>n(- x) = (- 1)\<^sup>n * H\<^sub>n(x)\<close>, and \<^verbatim>\<open>get_psi(n, -x)\<close> is
  \<open>(- 1)\<^sup>n\<close> times \<^verbatim>\<open>get_psi(n, x)\<close>.
\<close>

theorem get_psi_parity:
  assumes "1 \<le> N" and "n \<le> nat N"
  shows "\<exists>Hr p a. make_Hr N = Inr Hr \<and> Hr ! n = Some p \<and>
           polyval p (- x) = (- 1) ^ n * polyval p x \<and>
           get_psi Hr (int n) x = Inr a \<and>
           get_psi Hr (int n) (- x) = Inr ((- 1) ^ n * a)"
proof -
  let ?Hr = "map (\<lambda>k. Some (Hr_poly k)) [0..<nat N + 1]"
  let ?c = "1 / sqrt (sqrt pi * 2 ^ n * fact n)"
  have ok: "make_Hr N = Inr ?Hr" using assms(1) by (rule make_Hr_ok)
  have nth: "?Hr ! n = Some (Hr_poly n)" using assms(2) by (rule make_Hr_nth)
  have n: "0 \<le> int n" "int n \<le> N" using assms by simp_all
  have a: "get_psi ?Hr (int n) x = Inr (?c * polyval (Hr_poly n) x * exp (- x\<^sup>2 / 2))"
    using get_psi_family[OF n, of x] by (simp only: nat_int)
  have "get_psi ?Hr (int n) (- x) = Inr (?c * polyval (Hr_poly n) (- x) * exp (- (- x)\<^sup>2 / 2))"
    using get_psi_family[OF n, of "- x"] by (simp only: nat_int)
  then have b: "get_psi ?Hr (int n) (- x) =
                Inr ((- 1) ^ n * (?c * polyval (Hr_poly n) x * exp (- x\<^sup>2 / 2)))"
    unfolding Hr_poly_parity by (simp add: algebra_simps del: Hr_poly.simps)
  from ok nth Hr_poly_parity[of n x] a b show ?thesis by blast
qed

theorem get_psi_parity_witness:
  "(1::int) \<le> 6 \<and> (3::nat) \<le> nat 6 \<and>
   (\<exists>Hr a. make_Hr 6 = Inr Hr \<and> get_psi Hr 3 2 = Inr a \<and> get_psi Hr 3 (- 2) = Inr (- a))"
proof -
  have h: "(1::int) \<le> 6" "(3::nat) \<le> nat 6" by simp_all
  from get_psi_parity[OF h, of 2] show ?thesis by auto
qed

section \<open>The sample grid\<close>

text \<open>
  Claim C7 says that the grid's endpoints are the padded turning points
  \<open>XPAD_FRAC * xmin\<close> and \<open>XPAD_FRAC * xmax\<close>. The code samples
  \<^verbatim>\<open>np.linspace(xmin, xmax, 500)\<close>, the unpadded interval: with the notebook's \<open>N = 6\<close>
  the grid runs from \<open>- sqrt 14\<close> to \<open>sqrt 14\<close>, and neither endpoint is the padded value.
\<close>

theorem grid_endpoints_not_padded:
  "hd (grid_x 6) = - sqrt 14 \<and> last (grid_x 6) = sqrt 14 \<and>
   hd (grid_x 6) \<noteq> XPAD_FRAC * fst (get_turning_points 6) \<and>
   last (grid_x 6) \<noteq> XPAD_FRAC * snd (get_turning_points 6)"
proof -
  have tp: "get_turning_points 6 = (- sqrt 14, sqrt 14)"
    by (simp add: turning_points_value)
  have h: "hd (grid_x 6) = - sqrt 14" and l: "last (grid_x 6) = sqrt 14"
    unfolding grid_x_def tp by (simp_all add: linspace_hd linspace_last)
  have pos: "0 < sqrt 14" by simp
  have "sqrt 14 \<noteq> 13 / 10 * sqrt 14" using pos by simp
  then show ?thesis
    unfolding h l tp XPAD_FRAC_def by simp
qed

text \<open>
  Claim C7, amended. The grid has 500 points and spans exactly the interval between the
  two values returned by \<^verbatim>\<open>get_turning_points(N)\<close> for the highest requested quantum
  number \<open>N \<ge> 0\<close>: its first point is \<open>xmin\<close>, its last point is \<open>xmax\<close>, and every point
  lies between them. The fraction \<open>XPAD_FRAC\<close> pads only the limits of the plot's x-axis,
  which are \<open>XPAD_FRAC * xmin\<close> and \<open>XPAD_FRAC * xmax\<close>.
\<close>

theorem grid_spans_turning_points:
  assumes "0 \<le> N"
  shows "length (grid_x N) = 500 \<and>
         hd (grid_x N) = fst (get_turning_points N) \<and>
         last (grid_x N) = snd (get_turning_points N) \<and>
         (\<forall>x \<in> set (grid_x N). fst (get_turning_points N) \<le> x \<and> x \<le> snd (get_turning_points N)) \<and>
         xlim N = (XPAD_FRAC * fst (get_turning_points N), XPAD_FRAC * snd (get_turning_points N))"
proof -
  obtain xmin xmax where tp: "get_turning_points N = (xmin, xmax)"
    by (cases "get_turning_points N")
  have g: "grid_x N = linspace xmin xmax 500"
    by (simp add: grid_x_def tp)
  have "0 \<le> sqrt (2 * real_of_int N + 2)" using assms by simp
  with tp have le: "xmin \<le> xmax"
    unfolding turning_points_value by auto
  have bounds: "\<forall>x \<in> set (grid_x N). xmin \<le> x \<and> x \<le> xmax"
    unfolding g using linspace_bounds[OF le] by blast
  have "length (grid_x N) = 500" unfolding g by (rule linspace_length)
  moreover have "hd (grid_x N) = xmin" unfolding g by (rule linspace_hd) simp
  moreover have "last (grid_x N) = xmax" unfolding g by (rule linspace_last) simp
  moreover have "xlim N = (XPAD_FRAC * xmin, XPAD_FRAC * xmax)"
    by (simp add: xlim_def tp)
  ultimately show ?thesis using bounds by (simp add: tp)
qed

theorem grid_spans_turning_points_witness:
  "(0::int) \<le> 6 \<and> last (grid_x 6) \<in> set (grid_x 6) \<and>
   length (grid_x 6) = 500 \<and>
   fst (get_turning_points 6) \<le> last (grid_x 6) \<and> last (grid_x 6) \<le> snd (get_turning_points 6)"
proof -
  have h: "(0::int) \<le> 6" by simp
  note t = grid_spans_turning_points[OF h]
  from t have len: "length (grid_x 6) = 500" by blast
  then have "grid_x 6 \<noteq> []" by auto
  then have m: "last (grid_x 6) \<in> set (grid_x 6)" by (rule last_in_set)
  from t m have "fst (get_turning_points 6) \<le> last (grid_x 6) \<and>
                 last (grid_x 6) \<le> snd (get_turning_points 6)" by blast
  with h len m show ?thesis by blast
qed

end
